theory Spec2Isabelle
  imports Complex_Main
begin

section \<open>ContextFilePicker: data model\<close>

text \<open>
  The component of \<^verbatim>\<open>src/frontend/src/components/ContextFilePicker.tsx\<close> holds two pieces
  of local state (\<^verbatim>\<open>previews\<close>, \<^verbatim>\<open>isLoadingPreview\<close>) and receives the selection as
  a prop (\<^verbatim>\<open>selectedPaths\<close>) together with the callback \<^verbatim>\<open>onSelectionChange\<close>.
  Paths are JavaScript strings compared by value; they are modelled as \<^typ>\<open>string\<close>.
\<close>

text \<open>
  Modelled from the spec: the declaration of \<^verbatim>\<open>ContextFilePreview\<close> (imported from
  \<^verbatim>\<open>@/types/rag\<close>) is not part of the source. Its fields are those of an element of the
  preview endpoint's response, which are the ones the component reads (lines 65, 193-203).
\<close>

record ContextFilePreview =
  file_path :: string
  filename :: string
  text_preview :: string
  text_length :: int

text \<open>
  What the component does to the outside world, in the order it does it: the Tauri
  \<^verbatim>\<open>invoke\<close> calls, the \<^verbatim>\<open>fetch\<close> call (URL and the \<^verbatim>\<open>file_paths\<close> of its body), the
  calls of \<^verbatim>\<open>onSelectionChange\<close> and the \<^verbatim>\<open>console.error\<close> messages.
\<close>

datatype effect =
    Invoke string
  | Fetch string "string list"
  | OnSelectionChange "string list"
  | ConsoleError string

text \<open>
  The values \<^verbatim>\<open>response.json()\<close> can resolve to. The type annotation of line 85 is erased
  at run time, so any of them can become the value of \<^verbatim>\<open>previews\<close>. An object is the
  list of the members of the parsed object, each key once; a number is the value of its
  literal.
\<close>

datatype json =
    JNull
  | JBool bool
  | JNumber rat
  | JString string
  | JArray "json list"
  | JObject "(string \<times> json) list"

text \<open>
  The state the handlers work on. \<open>'v\<close> is the type of the value held in \<^verbatim>\<open>previews\<close>:
  \<^typ>\<open>ContextFilePreview list\<close> is the declared type, \<^typ>\<open>json\<close> the type of everything
  the state can hold at run time. The handlers that only store or keep that value are
  defined for every \<open>'v\<close>; those that look into it (handleRemovePath) or build it
  (handleClearAll, the initial state) are defined at the declared type.

  \<open>pendingFiles\<close>, \<open>pendingFolders\<close> and \<open>pendingFetches\<close>
  hold, for every asynchronous call that has not settled yet, the value of
  \<^verbatim>\<open>selectedPaths\<close> its handler closed over when it was started (for a fetch this is also
  the \<^verbatim>\<open>file_paths\<close> of the request).
\<close>

record 'v picker =
  selectedPaths :: "string list"
  previews :: "'v"
  isLoadingPreview :: bool
  apiBaseUrl :: string
  effects :: "effect list"
  pendingFiles :: "string list list"
  pendingFolders :: "string list list"
  pendingFetches :: "string list list"

text \<open>A promise either rejects or resolves to a value.\<close>

datatype 'a settled = Rejected | Resolved 'a

text \<open>
  The outcome of \<^verbatim>\<open>fetch\<close> followed by \<^verbatim>\<open>response.json()\<close>: the fetch rejects, or it
  resolves to a response with its \<^verbatim>\<open>ok\<close> flag and a body; \<^verbatim>\<open>response.json()\<close> rejects
  on the body, or resolves to a value of type \<open>'v\<close>. At \<^typ>\<open>json\<close> that is any body that
  parses, whatever its shape; at \<^typ>\<open>ContextFilePreview list\<close> it is a body of the shape
  line 85 declares.
\<close>

datatype 'v body = BodyUnparsable | BodyJson 'v

datatype 'v fetch_outcome = TransportError | HttpResponse bool "'v body"

section \<open>The handlers\<close>

definition log_effect :: "effect \<Rightarrow> 'v picker \<Rightarrow> 'v picker" where
  "log_effect e s = s\<lparr>effects := effects s @ [e]\<rparr>"

text \<open>
  Modelled from the spec: the embedding application, which owns \<^verbatim>\<open>selectedPaths\<close> and
  implements \<^verbatim>\<open>onSelectionChange\<close>, is not part of the source. It is the single owner of
  the path list and stores the list it is notified of as the next value of the prop.
\<close>

definition onSelectionChange :: "string list \<Rightarrow> 'v picker \<Rightarrow> 'v picker" where
  "onSelectionChange paths s = (log_effect (OnSelectionChange paths) s)\<lparr>selectedPaths := paths\<rparr>"

definition setPreviews :: "'v \<Rightarrow> 'v picker \<Rightarrow> 'v picker" where
  "setPreviews data s = s\<lparr>previews := data\<rparr>"

definition setIsLoadingPreview :: "bool \<Rightarrow> 'v picker \<Rightarrow> 'v picker" where
  "setIsLoadingPreview b s = s\<lparr>isLoadingPreview := b\<rparr>"

subsection \<open>handleAddFiles (lines 30-46)\<close>

text \<open>
  The loop of lines 35-40: \<open>newPaths\<close> starts as a copy of \<^verbatim>\<open>selectedPaths\<close>, and every
  path of \<^verbatim>\<open>selected\<close> that \<open>newPaths\<close> does not include yet is pushed to its end.
\<close>

fun newPaths_loop :: "string list \<Rightarrow> string list \<Rightarrow> string list" where
  "newPaths_loop newPaths [] = newPaths"
| "newPaths_loop newPaths (path # selected) =
     newPaths_loop (if path \<notin> set newPaths then newPaths @ [path] else newPaths) selected"

definition handleAddFiles_begin :: "'v picker \<Rightarrow> 'v picker" where
  "handleAddFiles_begin s =
     (log_effect (Invoke ''select_context_files'') s)
       \<lparr>pendingFiles := pendingFiles s @ [selectedPaths s]\<rparr>"

text \<open>
  The continuation after the \<^verbatim>\<open>await\<close>; \<open>captured\<close> is the \<^verbatim>\<open>selectedPaths\<close> of the
  closure, \<open>s\<close> the state at the time the dialog settles.
\<close>

fun handleAddFiles_settle ::
  "string list \<Rightarrow> string list option settled \<Rightarrow> 'v picker \<Rightarrow> 'v picker" where
  "handleAddFiles_settle captured Rejected s =
     log_effect (ConsoleError ''Failed to open file picker:'') s"
| "handleAddFiles_settle captured (Resolved None) s = s"
| "handleAddFiles_settle captured (Resolved (Some selected)) s =
     (if length selected > 0
      then onSelectionChange (newPaths_loop captured selected) s
      else s)"

subsection \<open>handleAddFolder (lines 48-60)\<close>

definition handleAddFolder_begin :: "'v picker \<Rightarrow> 'v picker" where
  "handleAddFolder_begin s =
     (log_effect (Invoke ''select_context_folder'') s)
       \<lparr>pendingFolders := pendingFolders s @ [selectedPaths s]\<rparr>"

text \<open>\<^verbatim>\<open>if (selected)\<close> is false for \<^verbatim>\<open>null\<close> and for the empty string.\<close>

fun handleAddFolder_settle ::
  "string list \<Rightarrow> string option settled \<Rightarrow> 'v picker \<Rightarrow> 'v picker" where
  "handleAddFolder_settle captured Rejected s =
     log_effect (ConsoleError ''Failed to open folder picker:'') s"
| "handleAddFolder_settle captured (Resolved None) s = s"
| "handleAddFolder_settle captured (Resolved (Some selected)) s =
     (if selected \<noteq> []
      then (if selected \<notin> set captured
            then onSelectionChange (captured @ [selected]) s
            else s)
      else s)"

subsection \<open>handleRemovePath (lines 62-68) and handleClearAll (lines 70-73)\<close>

definition handleRemovePath ::
  "string \<Rightarrow> ContextFilePreview list picker \<Rightarrow> ContextFilePreview list picker" where
  "handleRemovePath pathToRemove s =
     (let s1 = onSelectionChange (filter (\<lambda>p. p \<noteq> pathToRemove) (selectedPaths s)) s
      in setPreviews (filter (\<lambda>p. file_path p \<noteq> pathToRemove) (previews s1)) s1)"

definition handleClearAll ::
  "ContextFilePreview list picker \<Rightarrow> ContextFilePreview list picker" where
  "handleClearAll s = setPreviews [] (onSelectionChange [] s)"

subsection \<open>handlePreview (lines 75-93)\<close>

text \<open>
  Up to the \<^verbatim>\<open>await\<close>: the early return on an empty selection, then the loading flag is
  set and the request is sent with the current \<^verbatim>\<open>selectedPaths\<close>.
\<close>

definition handlePreview_begin :: "'v picker \<Rightarrow> 'v picker" where
  "handlePreview_begin s =
     (if length (selectedPaths s) = 0 then s
      else (log_effect (Fetch (apiBaseUrl s @ ''/read-context-files'') (selectedPaths s))
              (setIsLoadingPreview True s))
             \<lparr>pendingFetches := pendingFetches s @ [selectedPaths s]\<rparr>)"

text \<open>
  After the \<^verbatim>\<open>await\<close>: the \<^verbatim>\<open>try\<close> block, its \<^verbatim>\<open>catch\<close> and its \<^verbatim>\<open>finally\<close>, on the
  state at the time the request settles. The value \<^verbatim>\<open>response.json()\<close> resolves to is passed
  to \<^verbatim>\<open>setPreviews\<close> as it is (lines 85-86): nothing looks into it.
\<close>

fun handlePreview_try :: "'v fetch_outcome \<Rightarrow> 'v picker \<Rightarrow> 'v picker" where
  "handlePreview_try TransportError s =
     log_effect (ConsoleError ''Failed to preview files:'') s"
| "handlePreview_try (HttpResponse ok BodyUnparsable) s =
     (if ok then log_effect (ConsoleError ''Failed to preview files:'') s else s)"
| "handlePreview_try (HttpResponse ok (BodyJson data)) s =
     (if ok then setPreviews data s else s)"

definition handlePreview_settle :: "'v fetch_outcome \<Rightarrow> 'v picker \<Rightarrow> 'v picker" where
  "handlePreview_settle outcome s = setIsLoadingPreview False (handlePreview_try outcome s)"

subsection \<open>getFilename (lines 95-98)\<close>

text \<open>\<^verbatim>\<open>String.prototype.split\<close> with a one-character separator; the result is never empty.\<close>

fun split_str :: "char \<Rightarrow> string \<Rightarrow> string list" where
  "split_str sep [] = [[]]"
| "split_str sep (c # cs) =
     (let rest = split_str sep cs
      in if c = sep then [] # rest else (c # hd rest) # tl rest)"

definition backslash :: char where
  "backslash = CHR 0x5C"

definition replace_backslashes :: "string \<Rightarrow> string" where
  "replace_backslashes path = map (\<lambda>c. if c = backslash then CHR ''/'' else c) path"

definition getFilename :: "string \<Rightarrow> string" where
  "getFilename path =
     (let parts = split_str CHR ''/'' (replace_backslashes path);
          l = last parts
      in if l \<noteq> [] then l else path)"

section \<open>The component as a transition system\<close>

text \<open>
  The events of a session: a click on one of the buttons the component renders, or one of
  the pending asynchronous calls settling (identified by its position among the pending
  ones). The transition system is the component on preview data of the declared type.
\<close>

datatype event =
    ClickAddFiles
  | FilesSettled nat "string list option settled"
  | ClickAddFolder
  | FolderSettled nat "string option settled"
  | ClickRemove string
  | ClickClearAll
  | ClickPreview
  | FetchSettled nat "ContextFilePreview list fetch_outcome"

definition remove_nth :: "nat \<Rightarrow> 'a list \<Rightarrow> 'a list" where
  "remove_nth i xs = take i xs @ drop (Suc i) xs"

text \<open>
  The Preview and Clear All buttons are rendered only when \<^verbatim>\<open>selectedPaths.length > 0\<close>
  (line 128); the Preview button is disabled while \<^verbatim>\<open>isLoadingPreview\<close> (line 132); a
  Remove button exists for each selected path only (lines 157-179).
\<close>

fun step :: "event \<Rightarrow> ContextFilePreview list picker \<Rightarrow> ContextFilePreview list picker" where
  "step ClickAddFiles s = handleAddFiles_begin s"
| "step (FilesSettled i r) s =
     (if i < length (pendingFiles s)
      then handleAddFiles_settle (pendingFiles s ! i) r
             (s\<lparr>pendingFiles := remove_nth i (pendingFiles s)\<rparr>)
      else s)"
| "step ClickAddFolder s = handleAddFolder_begin s"
| "step (FolderSettled i r) s =
     (if i < length (pendingFolders s)
      then handleAddFolder_settle (pendingFolders s ! i) r
             (s\<lparr>pendingFolders := remove_nth i (pendingFolders s)\<rparr>)
      else s)"
| "step (ClickRemove p) s = (if p \<in> set (selectedPaths s) then handleRemovePath p s else s)"
| "step ClickClearAll s = (if length (selectedPaths s) > 0 then handleClearAll s else s)"
| "step ClickPreview s =
     (if length (selectedPaths s) > 0 \<and> \<not> isLoadingPreview s
      then handlePreview_begin s else s)"
| "step (FetchSettled i outcome) s =
     (if i < length (pendingFetches s)
      then handlePreview_settle outcome (s\<lparr>pendingFetches := remove_nth i (pendingFetches s)\<rparr>)
      else s)"

fun run ::
  "event list \<Rightarrow> ContextFilePreview list picker \<Rightarrow> ContextFilePreview list picker" where
  "run [] s = s"
| "run (e # es) s = run es (step e s)"

text \<open>The component when it is mounted with a selection and a base URL.\<close>

definition mount :: "string list \<Rightarrow> string \<Rightarrow> ContextFilePreview list picker" where
  "mount paths url =
     \<lparr>selectedPaths = paths, previews = [], isLoadingPreview = False, apiBaseUrl = url,
      effects = [], pendingFiles = [], pendingFolders = [], pendingFetches = []\<rparr>"

text \<open>
  The relation between the loading flag and the requests in flight that the Preview
  button maintains: no request in flight, or exactly one and the flag is set.
\<close>

definition fetch_guard :: "'v picker \<Rightarrow> bool" where
  "fetch_guard s =
     (pendingFetches s = [] \<or> (length (pendingFetches s) = 1 \<and> isLoadingPreview s))"

section \<open>Specification-side definitions\<close>

text \<open>
  The elements a merge appends, in the words of the specification: each element of the
  incoming sequence, in the order given, skipping those already in the existing sequence
  and those equal to an earlier element of the incoming sequence.
\<close>

definition appended_spec :: "string list \<Rightarrow> string list \<Rightarrow> string list" where
  "appended_spec S I =
     map (\<lambda>i. I ! i)
       (filter (\<lambda>i. I ! i \<notin> set S \<and> I ! i \<notin> set (take i I)) [0..<length I])"

text \<open>
  The last path segment, in the words of the specification: what follows the last
  separator, where both \<^verbatim>\<open>/\<close> and the backslash separate.
\<close>

definition is_separator :: "char \<Rightarrow> bool" where
  "is_separator c = (c = CHR ''/'' \<or> c = backslash)"

definition last_segment :: "string \<Rightarrow> string" where
  "last_segment path = rev (takeWhile (\<lambda>c. \<not> is_separator c) (rev path))"

text \<open>
  The shape of a well-formed payload, in the words of the specification: a JSON array of
  objects with the members \<^verbatim>\<open>file_path\<close>, \<^verbatim>\<open>filename\<close> and \<^verbatim>\<open>text_preview\<close>, which are
  strings, and \<^verbatim>\<open>text_length\<close>, which is an integer. The source never checks it.
\<close>

fun is_string_member :: "json option \<Rightarrow> bool" where
  "is_string_member (Some (JString x)) = True"
| "is_string_member other = False"

fun is_integer_member :: "json option \<Rightarrow> bool" where
  "is_integer_member (Some (JNumber r)) = (of_int \<lfloor>r\<rfloor> = r)"
| "is_integer_member other = False"

fun is_preview_entry :: "json \<Rightarrow> bool" where
  "is_preview_entry (JObject members) =
     (is_string_member (map_of members ''file_path'')
      \<and> is_string_member (map_of members ''filename'')
      \<and> is_string_member (map_of members ''text_preview'')
      \<and> is_integer_member (map_of members ''text_length''))"
| "is_preview_entry other = False"

fun is_preview_array :: "json \<Rightarrow> bool" where
  "is_preview_array (JArray entries) = list_all is_preview_entry entries"
| "is_preview_array other = False"

text \<open>The run-time value of data of the declared type.\<close>

definition encode_entry :: "ContextFilePreview \<Rightarrow> json" where
  "encode_entry e =
     JObject [(''file_path'', JString (file_path e)), (''filename'', JString (filename e)),
              (''text_preview'', JString (text_preview e)),
              (''text_length'', JNumber (of_int (text_length e)))]"

definition encode :: "ContextFilePreview list \<Rightarrow> json" where
  "encode data = JArray (map encode_entry data)"

section \<open>The merge of handleAddFiles\<close>

lemma newPaths_loop_snoc:
  "newPaths_loop acc (I @ [x]) =
     (if x \<notin> set (newPaths_loop acc I) then newPaths_loop acc I @ [x] else newPaths_loop acc I)"
  by (induction I arbitrary: acc) simp_all

lemma set_newPaths_loop: "set (newPaths_loop acc I) = set acc \<union> set I"
  by (induction I arbitrary: acc) auto

lemma distinct_newPaths_loop: "distinct acc \<Longrightarrow> distinct (newPaths_loop acc I)"
  by (induction I arbitrary: acc) auto

lemma appended_spec_Nil: "appended_spec S [] = []"
  by (simp add: appended_spec_def)

lemma appended_spec_snoc:
  "appended_spec S (I @ [x]) =
     appended_spec S I @ (if x \<notin> set S \<and> x \<notin> set I then [x] else [])"
proof -
  let ?P = "\<lambda>J i. J ! i \<notin> set S \<and> J ! i \<notin> set (take i J)"
  have f: "filter (?P (I @ [x])) [0..<length I] = filter (?P I) [0..<length I]"
    by (rule filter_cong) (simp_all add: nth_append)
  have m: "map (\<lambda>i. (I @ [x]) ! i) (filter (?P I) [0..<length I])
           = map (\<lambda>i. I ! i) (filter (?P I) [0..<length I])"
    by (rule map_cong) (simp_all add: nth_append)
  have "appended_spec S (I @ [x])
        = map (\<lambda>i. (I @ [x]) ! i) (filter (?P (I @ [x])) ([0..<length I] @ [length I]))"
    by (simp add: appended_spec_def)
  also have "\<dots> = map (\<lambda>i. (I @ [x]) ! i) (filter (?P (I @ [x])) [0..<length I])
                  @ map (\<lambda>i. (I @ [x]) ! i) (filter (?P (I @ [x])) [length I])"
    by (simp only: filter_append map_append)
  also have "map (\<lambda>i. (I @ [x]) ! i) (filter (?P (I @ [x])) [0..<length I]) = appended_spec S I"
    by (simp only: f m appended_spec_def)
  also have "map (\<lambda>i. (I @ [x]) ! i) (filter (?P (I @ [x])) [length I])
             = (if x \<notin> set S \<and> x \<notin> set I then [x] else [])"
    by simp
  finally show ?thesis .
qed

lemma newPaths_loop_appended: "newPaths_loop S I = S @ appended_spec S I"
proof (induction I rule: rev_induct)
  case Nil
  show ?case by (simp add: appended_spec_Nil)
next
  case (snoc x I)
  have "set (newPaths_loop S I) = set S \<union> set I"
    by (rule set_newPaths_loop)
  with snoc show ?case
    by (simp add: newPaths_loop_snoc appended_spec_snoc)
qed

text \<open>
  C1. For every sequence \<open>S\<close> of unique paths and every sequence \<open>I\<close>, the merge of
  handleAddFiles returns a sequence without duplicates whose set of elements is the union
  of \<open>S\<close> and \<open>I\<close>; it is \<open>S\<close>, in its order, followed by the elements of \<open>I\<close> in \<open>I\<close>'s order
  that are neither in \<open>S\<close> nor equal to an earlier element of \<open>I\<close>.
\<close>

theorem addMany_dedup_merge:
  assumes "distinct S"
  shows "distinct (newPaths_loop S I)
       \<and> set (newPaths_loop S I) = set S \<union> set I
       \<and> take (length S) (newPaths_loop S I) = S
       \<and> newPaths_loop S I = S @ appended_spec S I"
proof -
  have d: "distinct (newPaths_loop S I)"
    using assms by (rule distinct_newPaths_loop)
  have e: "newPaths_loop S I = S @ appended_spec S I"
    by (rule newPaths_loop_appended)
  have t: "take (length S) (newPaths_loop S I) = S"
    by (simp add: e)
  have u: "set (newPaths_loop S I) = set S \<union> set I"
    by (rule set_newPaths_loop)
  from d u t e show ?thesis
    by blast
qed

theorem addMany_dedup_merge_witness:
  "distinct [''a.txt'', ''b.txt'']
   \<and> newPaths_loop [''a.txt'', ''b.txt''] [''b.txt'', ''c.txt'', ''c.txt'', ''a.txt'', ''d.txt'']
       = [''a.txt'', ''b.txt'', ''c.txt'', ''d.txt'']
   \<and> appended_spec [''a.txt'', ''b.txt''] [''b.txt'', ''c.txt'', ''c.txt'', ''a.txt'', ''d.txt'']
       = [''c.txt'', ''d.txt'']"
  using addMany_dedup_merge [of "[''a.txt'', ''b.txt'']"
      "[''b.txt'', ''c.txt'', ''c.txt'', ''a.txt'', ''d.txt'']"]
  by (simp add: appended_spec_def upt_rec)

section \<open>Facts about the handlers\<close>

lemmas setter_defs =
  log_effect_def onSelectionChange_def setPreviews_def setIsLoadingPreview_def

section \<open>The preview request\<close>

lemma fetch_guard_mount: "fetch_guard (mount paths url)"
  by (simp add: mount_def fetch_guard_def)

lemma pendingFetches_files_settle:
  "pendingFetches (handleAddFiles_settle c r s) = pendingFetches s"
  by (cases "(c, r, s)" rule: handleAddFiles_settle.cases) (simp_all add: setter_defs)

lemma isLoading_files_settle:
  "isLoadingPreview (handleAddFiles_settle c r s) = isLoadingPreview s"
  by (cases "(c, r, s)" rule: handleAddFiles_settle.cases) (simp_all add: setter_defs)

lemma pendingFetches_folder_settle:
  "pendingFetches (handleAddFolder_settle c r s) = pendingFetches s"
  by (cases "(c, r, s)" rule: handleAddFolder_settle.cases) (simp_all add: setter_defs)

lemma isLoading_folder_settle:
  "isLoadingPreview (handleAddFolder_settle c r s) = isLoadingPreview s"
  by (cases "(c, r, s)" rule: handleAddFolder_settle.cases) (simp_all add: setter_defs)

lemma pendingFetches_try: "pendingFetches (handlePreview_try outcome s) = pendingFetches s"
  by (cases "(outcome, s)" rule: handlePreview_try.cases) (simp_all add: setter_defs)

lemma fetch_guard_step: "fetch_guard s \<Longrightarrow> fetch_guard (step e s)"
proof (cases e)
  case ClickAddFiles
  assume "fetch_guard s"
  then show ?thesis using ClickAddFiles
    by (simp add: fetch_guard_def handleAddFiles_begin_def setter_defs)
next
  case (FilesSettled i r)
  assume "fetch_guard s"
  then show ?thesis using FilesSettled
    by (simp add: fetch_guard_def pendingFetches_files_settle isLoading_files_settle)
next
  case ClickAddFolder
  assume "fetch_guard s"
  then show ?thesis using ClickAddFolder
    by (simp add: fetch_guard_def handleAddFolder_begin_def setter_defs)
next
  case (FolderSettled i r)
  assume "fetch_guard s"
  then show ?thesis using FolderSettled
    by (simp add: fetch_guard_def pendingFetches_folder_settle isLoading_folder_settle)
next
  case (ClickRemove p)
  assume "fetch_guard s"
  then show ?thesis using ClickRemove
    by (simp add: fetch_guard_def handleRemovePath_def setter_defs Let_def)
next
  case ClickClearAll
  assume "fetch_guard s"
  then show ?thesis using ClickClearAll
    by (simp add: fetch_guard_def handleClearAll_def setter_defs)
next
  case ClickPreview
  assume "fetch_guard s"
  then show ?thesis using ClickPreview
    by (auto simp add: fetch_guard_def handlePreview_begin_def setter_defs)
next
  case (FetchSettled i outcome)
  assume "fetch_guard s"
  then show ?thesis using FetchSettled
    by (auto simp add: fetch_guard_def handlePreview_settle_def pendingFetches_try setter_defs
        remove_nth_def)
qed

lemma fetch_guard_run: "fetch_guard s \<Longrightarrow> fetch_guard (run es s)"
  by (induction es arbitrary: s) (simp_all add: fetch_guard_step del: step.simps)

lemma fetch_guard_length: "fetch_guard s \<Longrightarrow> length (pendingFetches s) \<le> 1"
  by (auto simp add: fetch_guard_def)

lemma fetch_guard_loading: "fetch_guard s \<Longrightarrow> pendingFetches s \<noteq> [] \<Longrightarrow> isLoadingPreview s"
  by (simp add: fetch_guard_def)

text \<open>
  C3. While the loading flag is set, a click on the Preview button changes nothing: no
  request is sent and the state stays as it is (the button is disabled, line 132). In
  every state the component reaches from its mounting, at most one preview request is in
  flight, and whenever one is in flight the loading flag is set.
\<close>

theorem preview_single_flight:
  "(isLoadingPreview s \<longrightarrow> step ClickPreview s = s)
   \<and> length (pendingFetches (run evs (mount paths url))) \<le> 1
   \<and> (pendingFetches (run evs (mount paths url)) \<noteq> []
        \<longrightarrow> isLoadingPreview (run evs (mount paths url)))"
proof -
  have g: "fetch_guard (run evs (mount paths url))"
    by (rule fetch_guard_run [OF fetch_guard_mount])
  have a: "isLoadingPreview s \<longrightarrow> step ClickPreview s = s"
    by simp
  from a fetch_guard_length [OF g] fetch_guard_loading [OF g] show ?thesis
    by blast
qed

theorem preview_single_flight_witness:
  "isLoadingPreview (run [ClickPreview] (mount [''x.py''] ''http://localhost:5167''))
   \<and> step ClickPreview (run [ClickPreview] (mount [''x.py''] ''http://localhost:5167''))
       = run [ClickPreview] (mount [''x.py''] ''http://localhost:5167'')
   \<and> pendingFetches (run [ClickPreview, ClickPreview] (mount [''x.py''] ''http://localhost:5167''))
       = [[''x.py'']]"
  using preview_single_flight [of "run [ClickPreview] (mount [''x.py''] ''http://localhost:5167'')"
      "[ClickPreview, ClickPreview]" "[''x.py'']" "''http://localhost:5167''"]
  by (simp add: mount_def handlePreview_begin_def setter_defs)

lemma is_preview_entry_encode: "is_preview_entry (encode_entry e)"
  by (simp add: encode_entry_def)

lemma is_preview_array_encode: "is_preview_array (encode data)"
  by (induction data) (simp_all add: encode_def is_preview_entry_encode)

text \<open>
  C4, as amended. When a preview attempt fails by a transport error, by a response that is
  not ok, or by a body on which \<^verbatim>\<open>response.json()\<close> rejects, the preview collection stays
  as it was. A body of an ok response that parses is stored as the preview collection as
  received, whatever its shape. Whatever the outcome, the selection stays as it was,
  \<^verbatim>\<open>onSelectionChange\<close> is not called (the only effect an attempt can add is the logged
  error), and the handler leaves the loading flag cleared. This holds for every type of
  stored value, so also at \<^typ>\<open>json\<close>.
\<close>

theorem preview_failure_keeps_state:
  "previews (handlePreview_settle TransportError s) = previews s
   \<and> previews (handlePreview_settle (HttpResponse False b) s) = previews s
   \<and> previews (handlePreview_settle (HttpResponse True BodyUnparsable) s) = previews s
   \<and> previews (handlePreview_settle (HttpResponse True (BodyJson v)) s) = v
   \<and> selectedPaths (handlePreview_settle outcome s) = selectedPaths s
   \<and> effects (handlePreview_settle outcome s)
       \<in> {effects s, effects s @ [ConsoleError ''Failed to preview files:'']}
   \<and> isLoadingPreview (handlePreview_settle outcome s) = False"
  by (cases "(outcome, s)" rule: handlePreview_try.cases; cases b)
     (simp_all add: handlePreview_settle_def setter_defs)

text \<open>
  C4 as stated fails on a malformed payload that parses: the collection holds the entry
  for \<^verbatim>\<open>x.py\<close> from an earlier preview, a second request is in flight, and its ok
  response has the body \<^verbatim>\<open>{"detail": "unexpected"}\<close>, an object and not an array of
  preview entries. The collection is replaced by that object.
\<close>

theorem preview_malformed_counterexample:
  "\<not> is_preview_array (JObject [(''detail'', JString ''unexpected'')])
   \<and> previews
        \<lparr>selectedPaths = [''x.py''],
         previews = encode [\<lparr>file_path = ''x.py'', filename = ''x.py'', text_preview = ''...'',
                             text_length = 120\<rparr>],
         isLoadingPreview = True, apiBaseUrl = ''http://localhost:5167'',
         effects = [Fetch ''http://localhost:5167/read-context-files'' [''x.py''],
                    Fetch ''http://localhost:5167/read-context-files'' [''x.py'']],
         pendingFiles = [], pendingFolders = [], pendingFetches = []\<rparr>
       = JArray [JObject [(''file_path'', JString ''x.py''), (''filename'', JString ''x.py''),
                          (''text_preview'', JString ''...''), (''text_length'', JNumber 120)]]
   \<and> previews
        (handlePreview_settle
           (HttpResponse True (BodyJson (JObject [(''detail'', JString ''unexpected'')])))
           \<lparr>selectedPaths = [''x.py''],
            previews = encode [\<lparr>file_path = ''x.py'', filename = ''x.py'', text_preview = ''...'',
                                text_length = 120\<rparr>],
            isLoadingPreview = True, apiBaseUrl = ''http://localhost:5167'',
            effects = [Fetch ''http://localhost:5167/read-context-files'' [''x.py''],
                    Fetch ''http://localhost:5167/read-context-files'' [''x.py'']],
            pendingFiles = [], pendingFolders = [], pendingFetches = []\<rparr>)
       = JObject [(''detail'', JString ''unexpected'')]"
  by (simp add: handlePreview_settle_def setter_defs encode_def encode_entry_def)

text \<open>
  C5. With an empty selection, handlePreview returns at once: no request is sent and the
  state, effects included, is unchanged; the same holds for a click on the button.
\<close>

theorem guarded_preview:
  "selectedPaths s = [] \<Longrightarrow> handlePreview_begin s = s \<and> step ClickPreview s = s"
  by (simp add: handlePreview_begin_def)

theorem guarded_preview_witness:
  "selectedPaths (mount [] ''http://localhost:5167'') = []
   \<and> handlePreview_begin (mount [] ''http://localhost:5167'') = mount [] ''http://localhost:5167''
   \<and> effects (step ClickPreview (mount [] ''http://localhost:5167'')) = []"
  using guarded_preview [of "mount [] ''http://localhost:5167''"]
  by (simp add: mount_def)

section \<open>Clearing\<close>

text \<open>
  C8. After handleClearAll the selection is empty and the preview collection is empty,
  whatever the state before.
\<close>

theorem clear_resets:
  "selectedPaths (handleClearAll s) = [] \<and> previews (handleClearAll s) = []"
  by (simp add: handleClearAll_def setter_defs)

section \<open>Removing a path\<close>




section \<open>Adding a folder, and removing it again\<close>

lemma filter_neq_absent: "p \<notin> set S \<Longrightarrow> filter (\<lambda>q. q \<noteq> p) S = S"
  by (induction S) auto

lemma selectedPaths_remove:
  "selectedPaths (handleRemovePath p s) = filter (\<lambda>q. q \<noteq> p) (selectedPaths s)"
  by (simp add: handleRemovePath_def setter_defs)

text \<open>
  C6. When the selection is \<open>S\<close> and the folder dialog resolves to a path that is already
  in \<open>S\<close>, the selection after handleAddFolder is \<open>S\<close>; nothing else changes either.
\<close>

theorem addOne_idempotent:
  assumes "p \<in> set S" and "selectedPaths s = S"
  shows "selectedPaths (handleAddFolder_settle S (Resolved (Some p)) s) = S
       \<and> handleAddFolder_settle S (Resolved (Some p)) s = s"
  using assms by simp

theorem addOne_idempotent_witness:
  "''a.txt'' \<in> set [''a.txt'', ''b.txt'']
   \<and> selectedPaths (handleAddFolder_settle [''a.txt'', ''b.txt''] (Resolved (Some ''a.txt''))
        (mount [''a.txt'', ''b.txt''] ''http://localhost:5167'')) = [''a.txt'', ''b.txt'']"
  using addOne_idempotent [of "''a.txt''" "[''a.txt'', ''b.txt'']"
      "mount [''a.txt'', ''b.txt''] ''http://localhost:5167''"]
  by (simp add: mount_def)

text \<open>
  C7. When the selection is \<open>S\<close> and \<open>p\<close> is not in \<open>S\<close>, adding \<open>p\<close> through the folder
  dialog and then removing \<open>p\<close> gives the selection \<open>S\<close> again; and removing \<open>p\<close> from
  \<open>S\<close> itself, which does not contain it, leaves the selection \<open>S\<close>.
\<close>

theorem remove_inverts_addOne:
  assumes "p \<notin> set S" and "selectedPaths s = S"
  shows "selectedPaths (handleRemovePath p (handleAddFolder_settle S (Resolved (Some p)) s)) = S
       \<and> selectedPaths (handleRemovePath p s) = S"
  using assms by (auto simp add: selectedPaths_remove filter_neq_absent setter_defs)

theorem remove_inverts_addOne_witness:
  "''c.txt'' \<notin> set [''a.txt'', ''b.txt'']
   \<and> selectedPaths (handleAddFolder_settle [''a.txt'', ''b.txt''] (Resolved (Some ''c.txt''))
        (mount [''a.txt'', ''b.txt''] ''http://localhost:5167'')) = [''a.txt'', ''b.txt'', ''c.txt'']
   \<and> selectedPaths (handleRemovePath ''c.txt''
        (handleAddFolder_settle [''a.txt'', ''b.txt''] (Resolved (Some ''c.txt''))
           (mount [''a.txt'', ''b.txt''] ''http://localhost:5167''))) = [''a.txt'', ''b.txt'']"
  using remove_inverts_addOne [of "''c.txt''" "[''a.txt'', ''b.txt'']"
      "mount [''a.txt'', ''b.txt''] ''http://localhost:5167''"]
  by (simp add: mount_def setter_defs)

section \<open>Notifications of the two add operations\<close>

lemma newPaths_loop_subset: "set I \<subseteq> set S \<Longrightarrow> newPaths_loop S I = S"
  by (induction I) auto

text \<open>
  C10. When the file dialog resolves to a non-empty list whose elements are all in the
  selection \<open>S\<close> the handler closed over, handleAddFiles calls \<^verbatim>\<open>onSelectionChange\<close> once,
  with a list equal to \<open>S\<close>; when the folder dialog resolves to a path in \<open>S\<close>,
  handleAddFolder does not call it.
\<close>

theorem add_notifications_differ:
  assumes "selected \<noteq> []" and "set selected \<subseteq> set S" and "folder \<in> set S"
  shows "effects (handleAddFiles_settle S (Resolved (Some selected)) s)
           = effects s @ [OnSelectionChange S]
       \<and> effects (handleAddFolder_settle S (Resolved (Some folder)) s) = effects s"
  using assms by (simp add: newPaths_loop_subset setter_defs)

theorem add_notifications_differ_witness:
  "[''b.txt'', ''a.txt''] \<noteq> [] \<and> set [''b.txt'', ''a.txt''] \<subseteq> set [''a.txt'', ''b.txt'']
   \<and> ''a.txt'' \<in> set [''a.txt'', ''b.txt'']
   \<and> effects (handleAddFiles_settle [''a.txt'', ''b.txt''] (Resolved (Some [''b.txt'', ''a.txt'']))
        (mount [''a.txt'', ''b.txt''] ''http://localhost:5167''))
       = [OnSelectionChange [''a.txt'', ''b.txt'']]
   \<and> effects (handleAddFolder_settle [''a.txt'', ''b.txt''] (Resolved (Some ''a.txt''))
        (mount [''a.txt'', ''b.txt''] ''http://localhost:5167'')) = []"
  using add_notifications_differ [of "[''b.txt'', ''a.txt'']" "[''a.txt'', ''b.txt'']" "''a.txt''"
      "mount [''a.txt'', ''b.txt''] ''http://localhost:5167''"]
  by (simp add: mount_def)

section \<open>getFilename\<close>

lemma split_str_not_Nil: "split_str sep xs \<noteq> []"
  by (induction xs) (simp_all add: Let_def)

lemma split_str_no_sep: "sep \<notin> set xs \<Longrightarrow> split_str sep xs = [xs]"
  by (induction xs) (auto simp add: Let_def)

lemma split_str_append:
  "split_str sep (xs @ sep # ys) = split_str sep xs @ split_str sep ys"
  by (induction xs) (simp_all add: Let_def split_str_not_Nil)

lemma last_split_str:
  "sep \<notin> set zs \<Longrightarrow> last (split_str sep (xs @ sep # zs)) = zs"
  by (simp add: split_str_append split_str_no_sep)

lemma replace_no_backslash:
  "\<forall>c \<in> set zs. \<not> is_separator c \<Longrightarrow> replace_backslashes zs = zs"
  by (induction zs) (simp_all add: replace_backslashes_def is_separator_def)

lemma replace_no_sep:
  "\<forall>c \<in> set zs. \<not> is_separator c \<Longrightarrow> CHR ''/'' \<notin> set (replace_backslashes zs)"
  by (induction zs) (auto simp add: replace_backslashes_def is_separator_def)

lemma replace_append:
  "replace_backslashes (xs @ ys) = replace_backslashes xs @ replace_backslashes ys"
  by (simp add: replace_backslashes_def)

lemma replace_sep:
  "is_separator c \<Longrightarrow> replace_backslashes (c # ys) = CHR ''/'' # replace_backslashes ys"
  by (auto simp add: replace_backslashes_def is_separator_def)

lemma last_segment_no_sep:
  assumes "\<forall>c \<in> set zs. \<not> is_separator c"
  shows "last_segment zs = zs"
proof -
  have tw: "takeWhile (\<lambda>c. \<not> is_separator c) (rev zs) = rev zs"
    using assms by simp
  show ?thesis
    unfolding last_segment_def tw by simp
qed

lemma last_segment_append:
  assumes "is_separator c" and "\<forall>z \<in> set zs. \<not> is_separator z"
  shows "last_segment (xs @ c # zs) = zs"
proof -
  have "last_segment (xs @ c # zs) = last_segment zs"
    using assms(1) by (simp add: last_segment_def takeWhile_tail)
  then show ?thesis
    using last_segment_no_sep [OF assms(2)] by simp
qed

lemma last_parts:
  "last (split_str CHR ''/'' (replace_backslashes path)) = last_segment path"
proof (cases "\<exists>c \<in> set path. is_separator c")
  case True
  then obtain xs c zs where p: "path = xs @ c # zs" and c: "is_separator c"
    and zs: "\<forall>z \<in> set zs. \<not> is_separator z"
    using split_list_last_prop [of path is_separator] by blast
  have "replace_backslashes path = replace_backslashes xs @ CHR ''/'' # zs"
    using p c zs by (simp add: replace_append replace_sep replace_no_backslash)
  moreover have "CHR ''/'' \<notin> set zs"
    using zs by (auto simp add: is_separator_def)
  ultimately have "last (split_str CHR ''/'' (replace_backslashes path)) = zs"
    by (simp add: last_split_str)
  then show ?thesis
    using p c zs by (simp add: last_segment_append)
next
  case False
  then have n: "\<forall>c \<in> set path. \<not> is_separator c" by blast
  then show ?thesis
    using replace_no_sep [OF n]
    by (simp add: replace_no_backslash split_str_no_sep last_segment_no_sep)
qed

lemma last_segment_suffix: "\<exists>pre. path = pre @ last_segment path"
proof -
  have "rev path = takeWhile (\<lambda>c. \<not> is_separator c) (rev path)
                   @ dropWhile (\<lambda>c. \<not> is_separator c) (rev path)"
    by simp
  then have "path = rev (dropWhile (\<lambda>c. \<not> is_separator c) (rev path)) @ last_segment path"
    unfolding last_segment_def by (metis rev_append rev_rev_ident)
  then show ?thesis ..
qed

text \<open>
  C9, as amended. The display name is the last path segment, that is what follows the last
  \<^verbatim>\<open>/\<close> or backslash, when that segment is not empty; when it is empty (the path is
  empty or ends in a separator) the display name is the whole path, unchanged. The last
  segment holds no separator, and the display name is always a suffix of the path as
  given.
\<close>

theorem getFilename_last_segment:
  "getFilename path = (if last_segment path \<noteq> [] then last_segment path else path)
   \<and> (\<forall>c \<in> set (last_segment path). c \<noteq> CHR ''/'' \<and> c \<noteq> backslash)
   \<and> (\<exists>pre. path = pre @ getFilename path)"
proof -
  have a: "getFilename path = (if last_segment path \<noteq> [] then last_segment path else path)"
    by (simp add: getFilename_def Let_def last_parts)
  have b: "\<forall>c \<in> set (last_segment path). c \<noteq> CHR ''/'' \<and> c \<noteq> backslash"
    unfolding last_segment_def
    by (auto simp add: is_separator_def dest: set_takeWhileD)
  have c: "\<exists>pre. path = pre @ getFilename path"
    using last_segment_suffix [of path] by (auto simp add: a)
  from a b c show ?thesis by blast
qed

theorem getFilename_last_segment_witness:
  "getFilename (''C:/docs'' @ [backslash] @ ''notes.txt'') = ''notes.txt''
   \<and> getFilename ''C:/docs/'' = ''C:/docs/''"
proof -
  have l: "last_segment (''C:/docs'' @ [backslash] @ ''notes.txt'') = ''notes.txt''"
    by (simp add: last_segment_def is_separator_def backslash_def)
  have e: "last_segment ''C:/docs/'' = []"
    by (simp add: last_segment_def is_separator_def)
  have "getFilename (''C:/docs'' @ [backslash] @ ''notes.txt'')
        = (if last_segment (''C:/docs'' @ [backslash] @ ''notes.txt'') \<noteq> []
           then last_segment (''C:/docs'' @ [backslash] @ ''notes.txt'')
           else ''C:/docs'' @ [backslash] @ ''notes.txt'')"
    by (rule getFilename_last_segment [THEN conjunct1])
  moreover have "getFilename ''C:/docs/''
        = (if last_segment ''C:/docs/'' \<noteq> [] then last_segment ''C:/docs/'' else ''C:/docs/'')"
    by (rule getFilename_last_segment [THEN conjunct1])
  ultimately show ?thesis
    by (simp only: l e) simp
qed

text \<open>
  C9 as stated fails on a path that ends in a separator: its last segment is empty, and
  the display name is the whole path, separators included.
\<close>

theorem getFilename_counterexample:
  "getFilename ''docs/dir/'' \<noteq> last_segment ''docs/dir/''
   \<and> getFilename ''docs/dir/'' = ''docs/dir/''"
  by (simp add: getFilename_def replace_backslashes_def backslash_def last_segment_def
      is_separator_def Let_def)

end
